theory Spec2Isabelle
  imports Main
begin

section \<open>The rule index of \<^verbatim>\<open>resolve/index.go\<close>\<close>

subsection \<open>Data model\<close>

text \<open>
  Go slices are modelled as lists, that is as values: the sharing of a backing array
  between slices is not modelled. Names are the source's, except where two records would
  need the same field name or the name is an Isabelle keyword: the methods \<^verbatim>\<open>Name\<close> of
  \<^verbatim>\<open>Resolver\<close> and of \<^verbatim>\<open>rule.Rule\<close> are \<open>resolverName\<close> and \<open>ruleName\<close>, the fields of
  \<^verbatim>\<open>FindResult\<close> are \<open>resultLabel\<close> and \<open>resultEmbeds\<close>, \<^verbatim>\<open>File.Pkg\<close> is \<open>filePkg\<close>, and the
  field \<^verbatim>\<open>file\<close> of a record is \<open>file_rec\<close>.

  \<^verbatim>\<open>type ImportSpec struct { Lang, Imp string }\<close>
\<close>

record ImportSpec =
  Lang :: string
  Imp :: string

text \<open>
  Modelled from the spec: the package \<^verbatim>\<open>label\<close> is not among the sources. A label is a
  value with repository, package and name components; a relative label is resolved
  against a base repository and package by \<open>Abs\<close>, an absolute one is left as it is.
  \<open>New\<close> builds the absolute label of its three components.
\<close>

record Label =
  Repo :: string
  Pkg :: string
  Name :: string
  Relative :: bool

definition New :: "string \<Rightarrow> string \<Rightarrow> string \<Rightarrow> Label" where
  "New repo pkg name = \<lparr>Repo = repo, Pkg = pkg, Name = name, Relative = False\<rparr>"

definition Abs :: "Label \<Rightarrow> string \<Rightarrow> string \<Rightarrow> Label" where
  "Abs l repo pkg =
     (if \<not> Relative l then l
      else \<lparr>Repo = repo, Pkg = pkg, Name = Name l, Relative = False\<rparr>)"

text \<open>
  Modelled from the spec: \<^verbatim>\<open>rule.Rule\<close>, \<^verbatim>\<open>rule.File\<close> and \<^verbatim>\<open>config.Config\<close> are
  opaque handles owned by the caller. The index reads the rule's name, the file's
  package path, and the configuration's repository name and language allow-list.
\<close>

record Rule =
  ruleKind :: string
  ruleName :: string

record File =
  filePkg :: string

record Config =
  RepoName :: string
  Langs :: "string list"

text \<open>
  The \<^verbatim>\<open>Resolver\<close> interface, as far as the index calls it. \<open>Imports\<close> returns a slice
  that may be \<^verbatim>\<open>nil\<close>: \<open>None\<close> is the nil slice, \<open>Some []\<close> the empty non-nil one.
\<close>

record Resolver =
  resolverName :: string
  Imports :: "Config \<Rightarrow> Rule \<Rightarrow> File \<Rightarrow> ImportSpec list option"
  Embeds :: "Rule \<Rightarrow> Label \<Rightarrow> Label list"

text \<open>
  \<^verbatim>\<open>type ruleRecord struct\<close>. The index holds pointers to its records; every record is
  appended to \<open>rules\<close> when it is allocated, so a pointer is modelled as the record's
  position in \<open>rules\<close>.
\<close>

record ruleRecord =
  rule :: Rule
  label :: Label
  file_rec :: File
  importedAs :: "ImportSpec list"
  embeds :: "Label list"
  embedded :: bool
  didCollectEmbeds :: bool
  lang :: string

record FindResult =
  resultLabel :: Label
  resultEmbeds :: "Label list"

text \<open>
  \<^verbatim>\<open>type RuleIndex struct\<close>. The type \<open>'cr\<close> is that of the registered cross resolvers;
  their \<^verbatim>\<open>CrossResolve\<close> method is a parameter of the query that calls it.
\<close>

record 'cr RuleIndex =
  rules :: "ruleRecord list"
  labelMap :: "Label \<rightharpoonup> nat"
  importMap :: "ImportSpec \<rightharpoonup> nat list"
  mrslv :: "Rule \<Rightarrow> string \<Rightarrow> Resolver option"
  crossResolvers :: "'cr list"
  didFinish :: bool

text \<open>
  What a call can end in besides returning: the \<^verbatim>\<open>log.Panicf\<close> of \<open>AddRule\<close>, and a
  method call on the nil resolver. \<open>InvalidRecord\<close> stands for a position outside
  \<open>rules\<close>, which is no pointer of the source.
\<close>

datatype fault = AddRuleAfterFinish | NilResolver | InvalidRecord

text \<open>A line written by \<^verbatim>\<open>log.Printf\<close>.\<close>

datatype logEntry = MultipleRulesFound Label

subsection \<open>Registration\<close>

text \<open>
  \<^verbatim>\<open>NewRuleIndex\<close>: an extension that implements \<^verbatim>\<open>CrossResolver\<close> is \<open>Some cr\<close>, any
  other one is \<open>None\<close>.
\<close>

fun collectCrossResolvers :: "'cr option list \<Rightarrow> 'cr list \<Rightarrow> 'cr list" where
  "collectCrossResolvers [] crs = crs"
| "collectCrossResolvers (e # exts) crs =
     (case e of
        Some cr \<Rightarrow> collectCrossResolvers exts (crs @ [cr])
      | None \<Rightarrow> collectCrossResolvers exts crs)"

definition NewRuleIndex ::
  "(Rule \<Rightarrow> string \<Rightarrow> Resolver option) \<Rightarrow> 'cr option list \<Rightarrow> 'cr RuleIndex" where
  "NewRuleIndex m exts =
     \<lparr>rules = [], labelMap = Map.empty, importMap = Map.empty, mrslv = m,
      crossResolvers = collectCrossResolvers exts [], didFinish = False\<rparr>"

text \<open>The \<^verbatim>\<open>for\<close> loop of \<open>passesLanguageFilter\<close>, then the function.\<close>

fun langFilterLoop :: "string list \<Rightarrow> string \<Rightarrow> bool" where
  "langFilterLoop [] langName = False"
| "langFilterLoop (l # langFilter) langName =
     (if l = langName then True else langFilterLoop langFilter langName)"

definition passesLanguageFilter :: "string list \<Rightarrow> string \<Rightarrow> bool" where
  "passesLanguageFilter langFilter langName =
     (if length langFilter = 0 then True else langFilterLoop langFilter langName)"

text \<open>
  \<open>AddRule\<close> returns the index and the lines it logged, or the panic. The pair
  \<open>(lang, imps)\<close> is computed first, as in the source.
\<close>

definition ruleImports ::
  "'cr RuleIndex \<Rightarrow> Config \<Rightarrow> Rule \<Rightarrow> File \<Rightarrow> string \<times> ImportSpec list option" where
  "ruleImports ix c r f =
     (case mrslv ix r (filePkg f) of
        None \<Rightarrow> ([], None)
      | Some rslv \<Rightarrow>
          (resolverName rslv,
           if passesLanguageFilter (Langs c) (resolverName rslv)
           then Imports rslv c r f else None))"

definition AddRule ::
  "Config \<Rightarrow> Rule \<Rightarrow> File \<Rightarrow> 'cr RuleIndex \<Rightarrow> fault + ('cr RuleIndex \<times> logEntry list)" where
  "AddRule c r f ix =
     (if didFinish ix then Inl AddRuleAfterFinish
      else case ruleImports ix c r f of
        (lng, None) \<Rightarrow> Inr (ix, [])
      | (lng, Some imps) \<Rightarrow>
          let rec = \<lparr>rule = r, label = New (RepoName c) (filePkg f) (ruleName r),
                      file_rec = f, importedAs = imps, embeds = [], embedded = False,
                      didCollectEmbeds = False, lang = lng\<rparr>
          in (case labelMap ix (label rec) of
                Some other \<Rightarrow> Inr (ix, [MultipleRulesFound (label rec)])
              | None \<Rightarrow>
                  Inr (ix\<lparr>rules := rules ix @ [rec],
                           labelMap := (labelMap ix)(label rec \<mapsto> length (rules ix))\<rparr>,
                       [])))"

subsection \<open>Finish: the embed closure\<close>

text \<open>A write through the pointer \<open>p\<close>: the record at position \<open>p\<close> is replaced.\<close>

definition updRecord :: "'cr RuleIndex \<Rightarrow> nat \<Rightarrow> (ruleRecord \<Rightarrow> ruleRecord) \<Rightarrow> 'cr RuleIndex" where
  "updRecord ix p g = ix\<lparr>rules := (rules ix)[p := g (rules ix ! p)]\<rparr>"

text \<open>\<open>findRuleByLabel\<close> returns the pointer, or \<open>None\<close> where the source returns \<^verbatim>\<open>ok = false\<close>.\<close>

definition findRuleByLabel :: "'cr RuleIndex \<Rightarrow> Label \<Rightarrow> Label \<Rightarrow> nat option" where
  "findRuleByLabel ix l from = labelMap ix (Abs l (Repo from) (Pkg from))"

text \<open>The number of records whose closure has not been started: the termination measure.\<close>

definition unmarked :: "'cr RuleIndex \<Rightarrow> nat" where
  "unmarked ix = length (filter (\<lambda>rec. \<not> didCollectEmbeds rec) (rules ix))"

text \<open>
  The end of the loop body of \<open>collectEmbeds\<close>, after the recursive call: when the two
  resolvers have the same name, \<open>er\<close> is marked embedded and its \<open>embeds\<close> are appended to
  those of \<open>r\<close>; in either case its \<open>importedAs\<close> are appended to those of \<open>r\<close>. The writes
  are in the source's order, each reading the store the previous one left (\<open>r\<close> and \<open>er\<close>
  may be the same record).
\<close>

definition mergeEmbedded :: "'cr RuleIndex \<Rightarrow> nat \<Rightarrow> nat \<Rightarrow> bool \<Rightarrow> 'cr RuleIndex" where
  "mergeEmbedded ix r er sameName =
     (let ix2 =
            (if sameName
             then let ixa = updRecord ix er (\<lambda>rec. rec\<lparr>embedded := True\<rparr>)
                  in updRecord ixa r (\<lambda>rec. rec\<lparr>embeds := embeds rec @ embeds (rules ixa ! er)\<rparr>)
             else ix)
      in updRecord ix2 r (\<lambda>rec. rec\<lparr>importedAs := importedAs rec @ importedAs (rules ix2 ! er)\<rparr>))"

text \<open>
  \<open>collectEmbeds\<close> and its \<^verbatim>\<open>for\<close> loop over \<open>embedLabels\<close>. The flag
  \<open>didCollectEmbeds\<close> is set before the loop starts, as in the source.
\<close>

function collectEmbeds :: "'cr RuleIndex \<Rightarrow> nat \<Rightarrow> fault + 'cr RuleIndex"
  and collectEmbeds_loop ::
    "'cr RuleIndex \<Rightarrow> nat \<Rightarrow> Resolver \<Rightarrow> Label list \<Rightarrow> fault + 'cr RuleIndex"
where
  "collectEmbeds ix r =
     (if length (rules ix) \<le> r then Inl InvalidRecord
      else if didCollectEmbeds (rules ix ! r) then Inr ix
      else case mrslv ix (rule (rules ix ! r)) (filePkg (file_rec (rules ix ! r))) of
        None \<Rightarrow> Inl NilResolver
      | Some resolver \<Rightarrow>
          let ix1 = updRecord ix r (\<lambda>rec. rec\<lparr>didCollectEmbeds := True\<rparr>);
              embedLabels = Embeds resolver (rule (rules ix1 ! r)) (label (rules ix1 ! r));
              ix2 = updRecord ix1 r (\<lambda>rec. rec\<lparr>embeds := embedLabels\<rparr>)
          in collectEmbeds_loop ix2 r resolver embedLabels)"
| "collectEmbeds_loop ix r resolver [] = Inr ix"
| "collectEmbeds_loop ix r resolver (e # es) =
     (case findRuleByLabel ix e (label (rules ix ! r)) of
        None \<Rightarrow> collectEmbeds_loop ix r resolver es
      | Some er \<Rightarrow>
          (case collectEmbeds ix er of
             Inl err \<Rightarrow> Inl err
           | Inr ix1 \<Rightarrow>
               (case mrslv ix1 (rule (rules ix1 ! er)) (filePkg (file_rec (rules ix1 ! er))) of
                  None \<Rightarrow> Inl NilResolver
                | Some erResolver \<Rightarrow>
                    collectEmbeds_loop
                      (mergeEmbedded ix1 r er (resolverName resolver = resolverName erResolver))
                      r resolver es)))"
  by pat_completeness auto

text \<open>
  Termination. The recursion is nested: the loop continues on the index the recursive
  call returned. That call never increases the number of unstarted records, which is
  proved first, on the domain of the function.
\<close>

lemma length_filter_update_same:
  "P y = P (xs ! i) \<Longrightarrow> length (filter P (xs[i := y])) = length (filter P xs)"
  by (induction xs arbitrary: i) (auto split: nat.splits)

lemma length_filter_update_less:
  "i < length xs \<Longrightarrow> P (xs ! i) \<Longrightarrow> \<not> P y \<Longrightarrow>
   length (filter P (xs[i := y])) < length (filter P xs)"
proof (induction xs arbitrary: i)
  case Nil
  then show ?case by simp
next
  case (Cons x xs)
  show ?case
  proof (cases i)
    case 0
    with Cons.prems show ?thesis by (simp add: less_Suc_eq_le)
  next
    case (Suc j)
    with Cons.prems Cons.IH [of j] show ?thesis by simp
  qed
qed

lemma unmarked_updRecord:
  "didCollectEmbeds (g (rules ix ! p)) = didCollectEmbeds (rules ix ! p) \<Longrightarrow>
   unmarked (updRecord ix p g) = unmarked ix"
  by (simp add: unmarked_def updRecord_def length_filter_update_same)

lemma unmarked_mark:
  "p < length (rules ix) \<Longrightarrow> \<not> didCollectEmbeds (rules ix ! p) \<Longrightarrow>
   unmarked (updRecord ix p (\<lambda>rec. rec\<lparr>didCollectEmbeds := True\<rparr>)) < unmarked ix"
  by (simp add: unmarked_def updRecord_def length_filter_update_less)

lemma unmarked_mergeEmbedded: "unmarked (mergeEmbedded ix r er b) = unmarked ix"
  by (simp add: mergeEmbedded_def Let_def unmarked_updRecord)

lemma collectEmbeds_unmarked_partial:
  "collectEmbeds_collectEmbeds_loop_dom (Inl (ix, r)) \<Longrightarrow>
     collectEmbeds ix r = Inr ix' \<Longrightarrow> unmarked ix' \<le> unmarked ix"
  "collectEmbeds_collectEmbeds_loop_dom (Inr (ix, r, resolver, es)) \<Longrightarrow>
     collectEmbeds_loop ix r resolver es = Inr ix' \<Longrightarrow> unmarked ix' \<le> unmarked ix"
proof (induction ix r and ix r resolver es arbitrary: ix' and ix'
    rule: collectEmbeds_collectEmbeds_loop.pinduct)
  case (1 ix r)
  show ?case
  proof (cases "length (rules ix) \<le> r \<or> didCollectEmbeds (rules ix ! r)")
    case True
    with "1.hyps" "1.prems" show ?thesis
      by (auto simp: collectEmbeds.psimps split: if_splits)
  next
    case False
    then have inr: "r < length (rules ix)" and un: "\<not> didCollectEmbeds (rules ix ! r)"
      by auto
    from "1.prems" "1.hyps" False obtain resolver where
      rs: "mrslv ix (rule (rules ix ! r)) (filePkg (file_rec (rules ix ! r))) = Some resolver"
      by (auto simp: collectEmbeds.psimps split: option.splits)
    define ix1 where "ix1 = updRecord ix r (\<lambda>rec. rec\<lparr>didCollectEmbeds := True\<rparr>)"
    define embedLabels where
      "embedLabels = Embeds resolver (rule (rules ix1 ! r)) (label (rules ix1 ! r))"
    define ix2 where "ix2 = updRecord ix1 r (\<lambda>rec. rec\<lparr>embeds := embedLabels\<rparr>)"
    from "1.prems" "1.hyps" False rs
    have run: "collectEmbeds_loop ix2 r resolver embedLabels = Inr ix'"
      by (simp add: collectEmbeds.psimps Let_def ix1_def embedLabels_def ix2_def)
    have "unmarked ix' \<le> unmarked ix2"
      using "1.IH" [OF _ _ rs ix1_def embedLabels_def ix2_def run] False by simp
    also have "unmarked ix2 = unmarked ix1"
      by (simp add: ix2_def unmarked_updRecord)
    also have "unmarked ix1 < unmarked ix"
      unfolding ix1_def by (rule unmarked_mark [OF inr un])
    finally show ?thesis by simp
  qed
next
  case (2 ix r resolver)
  then show ?case by (simp add: collectEmbeds_loop.psimps)
next
  case (3 ix r resolver e es)
  show ?case
  proof (cases "findRuleByLabel ix e (label (rules ix ! r))")
    case None
    with "3.prems" "3.hyps" have "collectEmbeds_loop ix r resolver es = Inr ix'"
      by (simp add: collectEmbeds_loop.psimps)
    from "3.IH"(1) [OF None this] show ?thesis .
  next
    case (Some er)
    from "3.prems" "3.hyps" Some obtain ix1 erResolver where
      c: "collectEmbeds ix er = Inr ix1" and
      m: "mrslv ix1 (rule (rules ix1 ! er)) (filePkg (file_rec (rules ix1 ! er))) = Some erResolver" and
      l: "collectEmbeds_loop
            (mergeEmbedded ix1 r er (resolverName resolver = resolverName erResolver))
            r resolver es = Inr ix'"
      by (auto simp: collectEmbeds_loop.psimps split: sum.splits option.splits)
    have "unmarked ix' \<le> unmarked (mergeEmbedded ix1 r er (resolverName resolver = resolverName erResolver))"
      by (rule "3.IH"(3) [OF Some c m l])
    also have "\<dots> = unmarked ix1" by (rule unmarked_mergeEmbedded)
    also have "\<dots> \<le> unmarked ix" by (rule "3.IH"(2) [OF Some c])
    finally show ?thesis .
  qed
qed

lemma collectEmbeds_dom_total: "All collectEmbeds_collectEmbeds_loop_dom"
proof (relation "measures
    [\<lambda>x. case x of Inl (ix, r) \<Rightarrow> unmarked ix | Inr (ix, r, resolver, es) \<Rightarrow> unmarked ix,
     \<lambda>x. case x of Inl (ix, r) \<Rightarrow> 0 | Inr (ix, r, resolver, es) \<Rightarrow> Suc (length es)]",
    goal_cases)
  case 1
  show ?case by simp
next
  case (2 ix r resolver ix1 embedLabels ix2)
  then show ?case
    by (simp add: unmarked_updRecord) (metis unmarked_mark not_le)
next
  case (3 ix r resolver e es)
  then show ?case by simp
next
  case (4 ix r resolver e es er)
  then show ?case by simp
next
  case (5 ix r resolver e es er ix1 erResolver)
  then show ?case
    using collectEmbeds_unmarked_partial(1) [of ix er ix1]
    by (auto simp: unmarked_mergeEmbedded)
qed

termination collectEmbeds
  by (rule collectEmbeds_dom_total)

declare collectEmbeds.simps [simp del]

text \<open>\<open>Finish\<close>: the closure of every record in registration order, then the import index.\<close>

fun Finish_loop :: "'cr RuleIndex \<Rightarrow> nat list \<Rightarrow> fault + 'cr RuleIndex" where
  "Finish_loop ix [] = Inr ix"
| "Finish_loop ix (r # rs) =
     (case collectEmbeds ix r of
        Inl err \<Rightarrow> Inl err
      | Inr ix1 \<Rightarrow> Finish_loop ix1 rs)"

text \<open>Reading a Go map at a missing key gives the nil slice.\<close>

definition importMapGet :: "(ImportSpec \<rightharpoonup> nat list) \<Rightarrow> ImportSpec \<Rightarrow> nat list" where
  "importMapGet im imp = (case im imp of None \<Rightarrow> [] | Some ms \<Rightarrow> ms)"

text \<open>The inner loop of \<open>buildImportIndex\<close> over \<open>r.importedAs\<close>, with the set \<open>indexed\<close>.\<close>

fun indexImports ::
  "nat \<Rightarrow> ImportSpec list \<Rightarrow> ImportSpec set \<Rightarrow> (ImportSpec \<rightharpoonup> nat list) \<Rightarrow>
   (ImportSpec \<rightharpoonup> nat list)" where
  "indexImports r [] indexed im = im"
| "indexImports r (imp # imps) indexed im =
     (if imp \<in> indexed then indexImports r imps indexed im
      else indexImports r imps (insert imp indexed) (im(imp \<mapsto> importMapGet im imp @ [r])))"

text \<open>The outer loop: \<open>r\<close> is the position of the first of the remaining records.\<close>

fun buildImportIndex_loop ::
  "ruleRecord list \<Rightarrow> nat \<Rightarrow> (ImportSpec \<rightharpoonup> nat list) \<Rightarrow> (ImportSpec \<rightharpoonup> nat list)" where
  "buildImportIndex_loop [] r im = im"
| "buildImportIndex_loop (rec # recs) r im =
     (if embedded rec then buildImportIndex_loop recs (Suc r) im
      else buildImportIndex_loop recs (Suc r) (indexImports r (importedAs rec) {} im))"

definition buildImportIndex :: "'cr RuleIndex \<Rightarrow> 'cr RuleIndex" where
  "buildImportIndex ix = ix\<lparr>importMap := buildImportIndex_loop (rules ix) 0 Map.empty\<rparr>"

definition Finish :: "'cr RuleIndex \<Rightarrow> fault + 'cr RuleIndex" where
  "Finish ix =
     (case Finish_loop ix [0..<length (rules ix)] of
        Inl err \<Rightarrow> Inl err
      | Inr ix1 \<Rightarrow> Inr ((buildImportIndex ix1)\<lparr>didFinish := True\<rparr>))"

subsection \<open>Queries\<close>

fun FindRulesByImport_loop ::
  "ruleRecord list \<Rightarrow> nat list \<Rightarrow> string \<Rightarrow> FindResult list \<Rightarrow> FindResult list" where
  "FindRulesByImport_loop recs [] lng results = results"
| "FindRulesByImport_loop recs (m # matches) lng results =
     (if lang (recs ! m) \<noteq> lng then FindRulesByImport_loop recs matches lng results
      else FindRulesByImport_loop recs matches lng
             (results @ [\<lparr>resultLabel = label (recs ! m), resultEmbeds = embeds (recs ! m)\<rparr>]))"

definition FindRulesByImport :: "'cr RuleIndex \<Rightarrow> ImportSpec \<Rightarrow> string \<Rightarrow> FindResult list" where
  "FindRulesByImport ix imp lng =
     FindRulesByImport_loop (rules ix) (importMapGet (importMap ix) imp) lng []"

text \<open>
  \<open>FindRulesByImportWithConfig\<close>. The method \<^verbatim>\<open>CrossResolve\<close> of the registered cross
  resolvers is the parameter \<open>crossResolve\<close>. The result is the list returned together with
  the cross resolvers that were called, in the order of the calls.
\<close>

fun crossResolve_loop ::
  "('cr \<Rightarrow> Config \<Rightarrow> 'cr RuleIndex \<Rightarrow> ImportSpec \<Rightarrow> string \<Rightarrow> FindResult list) \<Rightarrow>
   Config \<Rightarrow> 'cr RuleIndex \<Rightarrow> ImportSpec \<Rightarrow> string \<Rightarrow> 'cr list \<Rightarrow>
   FindResult list \<times> 'cr list \<Rightarrow> FindResult list \<times> 'cr list" where
  "crossResolve_loop crossResolve c ix imp lng [] acc = acc"
| "crossResolve_loop crossResolve c ix imp lng (cr # crs) (results, called) =
     crossResolve_loop crossResolve c ix imp lng crs
       (results @ crossResolve cr c ix imp lng, called @ [cr])"

definition FindRulesByImportWithConfig ::
  "('cr \<Rightarrow> Config \<Rightarrow> 'cr RuleIndex \<Rightarrow> ImportSpec \<Rightarrow> string \<Rightarrow> FindResult list) \<Rightarrow>
   Config \<Rightarrow> 'cr RuleIndex \<Rightarrow> ImportSpec \<Rightarrow> string \<Rightarrow> FindResult list \<times> 'cr list" where
  "FindRulesByImportWithConfig crossResolve c ix imp lng =
     (let results = FindRulesByImport ix imp lng
      in if length results > 0 then (results, [])
         else crossResolve_loop crossResolve c ix imp lng (crossResolvers ix) (results, []))"

subsection \<open>Callers and example inputs\<close>

text \<open>
  A caller that registers a sequence of rules, one \<open>AddRule\<close> call after the other, and
  collects the log. A panic ends the sequence.
\<close>

fun AddRules ::
  "(Config \<times> Rule \<times> File) list \<Rightarrow> 'cr RuleIndex \<Rightarrow> fault + ('cr RuleIndex \<times> logEntry list)" where
  "AddRules [] ix = Inr (ix, [])"
| "AddRules ((c, r, f) # calls) ix =
     (case AddRule c r f ix of
        Inl err \<Rightarrow> Inl err
      | Inr (ix1, lg) \<Rightarrow>
          (case AddRules calls ix1 of
             Inl err \<Rightarrow> Inl err
           | Inr (ix2, lg2) \<Rightarrow> Inr (ix2, lg @ lg2)))"

text \<open>
  Example providers, in the manner of a test double: a provider named \<open>nm\<close> makes a rule of
  kind \<open>nm_library\<close> importable under its own name and returns nil imports for any
  other kind; what a rule embeds is looked up by the rule's name in a table.
\<close>

definition exampleResolver :: "string \<Rightarrow> (string \<times> Label list) list \<Rightarrow> Resolver" where
  "exampleResolver nm tbl =
     \<lparr>resolverName = nm,
      Imports = (\<lambda>c r f. if ruleKind r = nm @ ''_library''
                           then Some [\<lparr>Lang = nm, Imp = ruleName r\<rparr>] else None),
      Embeds = (\<lambda>r from. case map_of tbl (ruleName r) of None \<Rightarrow> [] | Some ls \<Rightarrow> ls)\<rparr>"

definition exampleMrslv :: "(string \<times> Label list) list \<Rightarrow> Rule \<Rightarrow> string \<Rightarrow> Resolver option" where
  "exampleMrslv tbl r pkgRel =
     (if ruleKind r = ''go_library'' \<or> ruleKind r = ''go_binary''
      then Some (exampleResolver ''go'' tbl)
      else if ruleKind r = ''proto_library'' then Some (exampleResolver ''proto'' tbl)
      else None)"

definition exampleConfig :: Config where
  "exampleConfig = \<lparr>RepoName = [], Langs = []\<rparr>"

definition exampleFile :: File where
  "exampleFile = \<lparr>filePkg = ''pkg''\<rparr>"

definition exampleCall :: "string \<Rightarrow> string \<Rightarrow> Config \<times> Rule \<times> File" where
  "exampleCall kind name = (exampleConfig, \<lparr>ruleKind = kind, ruleName = name\<rparr>, exampleFile)"

definition exampleLabel :: "string \<Rightarrow> Label" where
  "exampleLabel name = New [] ''pkg'' name"

text \<open>The index after the calls, and after \<open>Finish\<close>; a panic leaves the index it was given.\<close>

definition registeredIndex :: "(Config \<times> Rule \<times> File) list \<Rightarrow> 'cr RuleIndex \<Rightarrow> 'cr RuleIndex" where
  "registeredIndex calls ix = (case AddRules calls ix of Inl err \<Rightarrow> ix | Inr (ix1, lg) \<Rightarrow> ix1)"

definition finishedIndex :: "'cr RuleIndex \<Rightarrow> 'cr RuleIndex" where
  "finishedIndex ix = (case Finish ix of Inl err \<Rightarrow> ix | Inr ix1 \<Rightarrow> ix1)"

text \<open>The index after registering rules given by kind and name, with the embed table \<open>tbl\<close>.\<close>

definition exampleIndex :: "(string \<times> Label list) list \<Rightarrow> (string \<times> string) list \<Rightarrow> unit RuleIndex" where
  "exampleIndex tbl rs =
     registeredIndex (map (\<lambda>(kind, name). exampleCall kind name) rs) (NewRuleIndex (exampleMrslv tbl) [])"

text \<open>An example cross resolver: it answers with one label in the repository of its name.\<close>

definition exampleCrossResolve ::
  "string \<Rightarrow> Config \<Rightarrow> string RuleIndex \<Rightarrow> ImportSpec \<Rightarrow> string \<Rightarrow> FindResult list" where
  "exampleCrossResolve cr c ix imp lng =
     [\<lparr>resultLabel = New cr (Lang imp) (Imp imp), resultEmbeds = []\<rparr>]"

text \<open>An index with one go rule and the cross resolvers \<open>x\<close> and \<open>y\<close>, after \<open>Finish\<close>.\<close>

definition exampleCrossIndex :: "string RuleIndex" where
  "exampleCrossIndex =
     finishedIndex (registeredIndex [exampleCall ''go_library'' ''a'']
       (NewRuleIndex (exampleMrslv []) [Some ''x'', None, Some ''y'']))"

text \<open>Two go libraries that embed each other.\<close>

definition exampleCycle :: "unit RuleIndex" where
  "exampleCycle =
     exampleIndex [(''a'', [exampleLabel ''b'']), (''b'', [exampleLabel ''a''])]
       [(''go_library'', ''a''), (''go_library'', ''b'')]"







subsection \<open>The claims that fail, as predicates\<close>

text \<open>
  The property of claim C1 as a predicate: after the call and \<open>Finish\<close>, the label map has a
  record under the label of the rule.
\<close>

definition recordedAfterFinish :: "Config \<Rightarrow> Rule \<Rightarrow> File \<Rightarrow> 'cr RuleIndex \<Rightarrow> bool" where
  "recordedAfterFinish c r f ix =
     (case AddRule c r f ix of
        Inl err \<Rightarrow> False
      | Inr (ix1, lg) \<Rightarrow>
          (case Finish ix1 of
             Inl err \<Rightarrow> False
           | Inr ix2 \<Rightarrow> labelMap ix2 (New (RepoName c) (filePkg f) (ruleName r)) \<noteq> None))"

text \<open>The report of claim C8 as a predicate: the call returns and logs the duplicate label.\<close>

definition duplicateReported :: "Config \<Rightarrow> Rule \<Rightarrow> File \<Rightarrow> 'cr RuleIndex \<Rightarrow> bool" where
  "duplicateReported c r f ix =
     (case AddRule c r f ix of
        Inl err \<Rightarrow> False
      | Inr (ix1, lg) \<Rightarrow> lg = [MultipleRulesFound (New (RepoName c) (filePkg f) (ruleName r))])"


section \<open>Invariants\<close>

subsection \<open>Definitions\<close>

text \<open>
  What every index built by \<open>AddRule\<close> satisfies: the label map and the rule list describe
  the same records (so labels are unique), and every record has the provider that the
  lookup function returned for it, under whose name it is filed.
\<close>

definition wf_index :: "'cr RuleIndex \<Rightarrow> bool" where
  "wf_index ix \<longleftrightarrow>
     (\<forall>l i. labelMap ix l = Some i \<longrightarrow> i < length (rules ix) \<and> label (rules ix ! i) = l) \<and>
     (\<forall>i < length (rules ix). labelMap ix (label (rules ix ! i)) = Some i) \<and>
     (\<forall>i < length (rules ix). \<exists>p.
         mrslv ix (rule (rules ix ! i)) (filePkg (file_rec (rules ix ! i))) = Some p \<and>
         lang (rules ix ! i) = resolverName p)"

text \<open>Before \<open>Finish\<close>, no record carries closure data.\<close>

definition fresh_index :: "'cr RuleIndex \<Rightarrow> bool" where
  "fresh_index ix \<longleftrightarrow>
     \<not> didFinish ix \<and>
     (\<forall>i < length (rules ix).
        \<not> didCollectEmbeds (rules ix ! i) \<and> \<not> embedded (rules ix ! i) \<and> embeds (rules ix ! i) = [])"

text \<open>
  The two writes with which \<open>collectEmbeds\<close> starts the closure of \<open>r\<close>, and the provider
  the lookup function returns for the record at a position.
\<close>

definition startEmbeds :: "'cr RuleIndex \<Rightarrow> nat \<Rightarrow> Resolver \<Rightarrow> 'cr RuleIndex" where
  "startEmbeds ix r resolver =
     updRecord (updRecord ix r (\<lambda>rec. rec\<lparr>didCollectEmbeds := True\<rparr>)) r
       (\<lambda>rec. rec\<lparr>embeds := Embeds resolver (rule (rules ix ! r)) (label (rules ix ! r))\<rparr>)"

definition resolverOf :: "'cr RuleIndex \<Rightarrow> nat \<Rightarrow> Resolver option" where
  "resolverOf ix i = mrslv ix (rule (rules ix ! i)) (filePkg (file_rec (rules ix ! i)))"

text \<open>The writes of the closure computation, each with the context in which it is made.\<close>

inductive closureStep :: "'cr RuleIndex \<Rightarrow> 'cr RuleIndex \<Rightarrow> bool" where
  start: "r < length (rules ix) \<Longrightarrow> \<not> didCollectEmbeds (rules ix ! r) \<Longrightarrow>
          resolverOf ix r = Some resolver \<Longrightarrow> closureStep ix (startEmbeds ix r resolver)"
| merge: "r < length (rules ix) \<Longrightarrow> didCollectEmbeds (rules ix ! r) \<Longrightarrow>
          resolverOf ix r = Some resolver \<Longrightarrow>
          e \<in> set (Embeds resolver (rule (rules ix ! r)) (label (rules ix ! r))) \<Longrightarrow>
          findRuleByLabel ix e (label (rules ix ! r)) = Some er \<Longrightarrow>
          er < length (rules ix) \<Longrightarrow> didCollectEmbeds (rules ix ! er) \<Longrightarrow>
          resolverOf ix er = Some erResolver \<Longrightarrow>
          closureStep ix (mergeEmbedded ix r er (resolverName resolver = resolverName erResolver))"

text \<open>
  How a record can change during the closure computation: the rule, label, file and
  language stay, flags are only set, \<open>importedAs\<close> only grows, and the \<open>embeds\<close> of a record
  whose closure has been started only grows.
\<close>

definition recordExt :: "ruleRecord \<Rightarrow> ruleRecord \<Rightarrow> bool" where
  "recordExt rec rec' \<longleftrightarrow>
     rule rec' = rule rec \<and> label rec' = label rec \<and> file_rec rec' = file_rec rec \<and>
     lang rec' = lang rec \<and>
     (didCollectEmbeds rec \<longrightarrow> didCollectEmbeds rec') \<and>
     (embedded rec \<longrightarrow> embedded rec') \<and>
     set (importedAs rec) \<subseteq> set (importedAs rec') \<and>
     (didCollectEmbeds rec \<longrightarrow> set (embeds rec) \<subseteq> set (embeds rec'))"

definition closureExt :: "'cr RuleIndex \<Rightarrow> 'cr RuleIndex \<Rightarrow> bool" where
  "closureExt ix ix' \<longleftrightarrow>
     labelMap ix' = labelMap ix \<and> mrslv ix' = mrslv ix \<and> importMap ix' = importMap ix \<and>
     crossResolvers ix' = crossResolvers ix \<and> didFinish ix' = didFinish ix \<and>
     length (rules ix') = length (rules ix) \<and>
     (\<forall>i < length (rules ix). recordExt (rules ix ! i) (rules ix' ! i))"













subsection \<open>Registration\<close>

lemma langFilterLoop_iff: "langFilterLoop langFilter langName \<longleftrightarrow> langName \<in> set langFilter"
  by (induction langFilter) auto

lemma passesLanguageFilter_iff:
  "passesLanguageFilter langFilter langName \<longleftrightarrow> langFilter = [] \<or> langName \<in> set langFilter"
  by (simp add: passesLanguageFilter_def langFilterLoop_iff)

lemma wf_index_New: "wf_index (NewRuleIndex m exts)"
  by (simp add: wf_index_def NewRuleIndex_def)

lemma fresh_index_New: "fresh_index (NewRuleIndex m exts)"
  by (simp add: fresh_index_def NewRuleIndex_def)

lemma AddRule_cases:
  assumes "AddRule c r f ix = Inr (ix', lg)"
  obtains (unchanged) "ix' = ix"
  | (added) lng imps where
      "ruleImports ix c r f = (lng, Some imps)"
      "labelMap ix (New (RepoName c) (filePkg f) (ruleName r)) = None"
      "lg = []"
      "ix' = ix\<lparr>rules := rules ix @ [\<lparr>rule = r, label = New (RepoName c) (filePkg f) (ruleName r),
                      file_rec = f, importedAs = imps, embeds = [], embedded = False,
                      didCollectEmbeds = False, lang = lng\<rparr>],
                 labelMap := (labelMap ix)(New (RepoName c) (filePkg f) (ruleName r) \<mapsto> length (rules ix))\<rparr>"
  using assms
  by (auto simp: AddRule_def Let_def split: if_splits prod.splits option.splits)

lemma ruleImports_Some:
  "ruleImports ix c r f = (lng, Some imps) \<Longrightarrow>
   \<exists>p. mrslv ix r (filePkg f) = Some p \<and> lng = resolverName p \<and>
       passesLanguageFilter (Langs c) (resolverName p) \<and> Imports p c r f = Some imps"
  by (auto simp: ruleImports_def split: option.splits if_splits)

lemma wf_index_AddRule:
  assumes "wf_index ix" and "AddRule c r f ix = Inr (ix', lg)"
  shows "wf_index ix'"
  using assms(2)
proof (cases rule: AddRule_cases)
  case unchanged
  with assms(1) show ?thesis by simp
next
  case (added lng imps)
  from ruleImports_Some [OF added(1)] obtain p where
    p: "mrslv ix r (filePkg f) = Some p" "lng = resolverName p" by blast
  let ?L = "New (RepoName c) (filePkg f) (ruleName r)"
  have a: "\<forall>l i. labelMap ix l = Some i \<longrightarrow> i < length (rules ix) \<and> label (rules ix ! i) = l"
    and b: "\<forall>i < length (rules ix). labelMap ix (label (rules ix ! i)) = Some i"
    and c: "\<forall>i < length (rules ix). \<exists>p.
         mrslv ix (rule (rules ix ! i)) (filePkg (file_rec (rules ix ! i))) = Some p \<and>
         lang (rules ix ! i) = resolverName p"
    using assms(1) by (auto simp: wf_index_def)
  have ne: "\<forall>i < length (rules ix). label (rules ix ! i) \<noteq> ?L"
    using b added(2) by force
  show ?thesis
    unfolding wf_index_def added(4)
    using a b c ne p
    by (auto simp: nth_append less_Suc_eq)
qed

lemma fresh_index_AddRule:
  assumes "fresh_index ix" and "AddRule c r f ix = Inr (ix', lg)"
  shows "fresh_index ix'"
  using assms(2)
proof (cases rule: AddRule_cases)
  case unchanged
  with assms(1) show ?thesis by simp
next
  case (added lng imps)
  show ?thesis
    unfolding fresh_index_def added(4)
    using assms(1)
    by (auto simp: fresh_index_def nth_append less_Suc_eq)
qed

lemma AddRules_invariants:
  "AddRules calls ix = Inr (ix', lg) \<Longrightarrow> wf_index ix \<Longrightarrow> fresh_index ix \<Longrightarrow>
   wf_index ix' \<and> fresh_index ix'"
proof (induction calls arbitrary: ix lg)
  case Nil
  then show ?case by simp
next
  case (Cons call calls)
  obtain c r f where call: "call = (c, r, f)" by (cases call)
  from Cons.prems(1) call obtain ix1 lg1 lg2 where
    a: "AddRule c r f ix = Inr (ix1, lg1)" and b: "AddRules calls ix1 = Inr (ix', lg2)"
    by (auto split: sum.splits prod.splits)
  from wf_index_AddRule [OF Cons.prems(2) a] fresh_index_AddRule [OF Cons.prems(3) a]
  show ?case by (rule Cons.IH [OF b])
qed

lemma wf_index_distinct: "wf_index ix \<Longrightarrow> distinct (map label (rules ix))"
  unfolding wf_index_def distinct_conv_nth
  by (metis length_map nth_map option.inject)

subsection \<open>The writes of the closure computation\<close>

lemma updRecord_fields [simp]:
  "labelMap (updRecord ix p g) = labelMap ix"
  "mrslv (updRecord ix p g) = mrslv ix"
  "importMap (updRecord ix p g) = importMap ix"
  "crossResolvers (updRecord ix p g) = crossResolvers ix"
  "didFinish (updRecord ix p g) = didFinish ix"
  "length (rules (updRecord ix p g)) = length (rules ix)"
  by (simp_all add: updRecord_def)

lemma updRecord_nth:
  "i < length (rules ix) \<Longrightarrow>
   rules (updRecord ix p g) ! i = (if i = p then g (rules ix ! i) else rules ix ! i)"
  by (simp add: updRecord_def nth_list_update)

lemma startEmbeds_fields [simp]:
  "labelMap (startEmbeds ix r resolver) = labelMap ix"
  "mrslv (startEmbeds ix r resolver) = mrslv ix"
  "importMap (startEmbeds ix r resolver) = importMap ix"
  "crossResolvers (startEmbeds ix r resolver) = crossResolvers ix"
  "didFinish (startEmbeds ix r resolver) = didFinish ix"
  "length (rules (startEmbeds ix r resolver)) = length (rules ix)"
  by (simp_all add: startEmbeds_def)

lemma startEmbeds_nth:
  "i < length (rules ix) \<Longrightarrow>
   rules (startEmbeds ix r resolver) ! i =
     (if i = r
      then (rules ix ! i)\<lparr>didCollectEmbeds := True,
             embeds := Embeds resolver (rule (rules ix ! r)) (label (rules ix ! r))\<rparr>
      else rules ix ! i)"
  by (simp add: startEmbeds_def updRecord_nth)

lemma mergeEmbedded_fields [simp]:
  "labelMap (mergeEmbedded ix r er b) = labelMap ix"
  "mrslv (mergeEmbedded ix r er b) = mrslv ix"
  "importMap (mergeEmbedded ix r er b) = importMap ix"
  "crossResolvers (mergeEmbedded ix r er b) = crossResolvers ix"
  "didFinish (mergeEmbedded ix r er b) = didFinish ix"
  "length (rules (mergeEmbedded ix r er b)) = length (rules ix)"
  by (simp_all add: mergeEmbedded_def Let_def)

lemma mergeEmbedded_nth:
  assumes "i < length (rules ix)" "er < length (rules ix)"
  shows "rules (mergeEmbedded ix r er b) ! i =
     (rules ix ! i)
       \<lparr>importedAs := (if i = r then importedAs (rules ix ! r) @ importedAs (rules ix ! er)
                         else importedAs (rules ix ! i)),
        embeds := (if b \<and> i = r then embeds (rules ix ! r) @ embeds (rules ix ! er)
                   else embeds (rules ix ! i)),
        embedded := (embedded (rules ix ! i) \<or> (b \<and> i = er))\<rparr>"
  using assms
  by (cases b) (auto simp: mergeEmbedded_def Let_def updRecord_nth)

lemma collectEmbeds_marked:
  "r < length (rules ix) \<Longrightarrow> didCollectEmbeds (rules ix ! r) \<Longrightarrow> collectEmbeds ix r = Inr ix"
  by (subst collectEmbeds.simps) simp

lemma collectEmbeds_invalid:
  "\<not> r < length (rules ix) \<Longrightarrow> collectEmbeds ix r = Inl InvalidRecord"
  by (subst collectEmbeds.simps) simp

lemma collectEmbeds_nil:
  "r < length (rules ix) \<Longrightarrow> \<not> didCollectEmbeds (rules ix ! r) \<Longrightarrow>
   resolverOf ix r = None \<Longrightarrow> collectEmbeds ix r = Inl NilResolver"
  by (subst collectEmbeds.simps) (simp add: resolverOf_def)

lemma collectEmbeds_start:
  "r < length (rules ix) \<Longrightarrow> \<not> didCollectEmbeds (rules ix ! r) \<Longrightarrow>
   resolverOf ix r = Some resolver \<Longrightarrow>
   collectEmbeds ix r =
     collectEmbeds_loop (startEmbeds ix r resolver) r resolver
       (Embeds resolver (rule (rules ix ! r)) (label (rules ix ! r)))"
  by (subst collectEmbeds.simps) (simp add: resolverOf_def Let_def startEmbeds_def updRecord_nth)

lemma collectEmbeds_Inr_cases:
  assumes "collectEmbeds ix r = Inr ix'"
  obtains (marked) "r < length (rules ix)" "didCollectEmbeds (rules ix ! r)" "ix' = ix"
  | (start) resolver where "r < length (rules ix)" "\<not> didCollectEmbeds (rules ix ! r)"
      "resolverOf ix r = Some resolver"
      "collectEmbeds_loop (startEmbeds ix r resolver) r resolver
         (Embeds resolver (rule (rules ix ! r)) (label (rules ix ! r))) = Inr ix'"
proof (cases "r < length (rules ix)")
  case False
  from collectEmbeds_invalid [OF this] assms show ?thesis by simp
next
  case inr: True
  show ?thesis
  proof (cases "didCollectEmbeds (rules ix ! r)")
    case True
    from collectEmbeds_marked [OF inr True] assms have "ix' = ix" by simp
    with inr True show ?thesis by (rule marked)
  next
    case False
    show ?thesis
    proof (cases "resolverOf ix r")
      case None
      from collectEmbeds_nil [OF inr False None] assms show ?thesis by simp
    next
      case (Some resolver)
      from collectEmbeds_start [OF inr False Some] assms
      have "collectEmbeds_loop (startEmbeds ix r resolver) r resolver
         (Embeds resolver (rule (rules ix ! r)) (label (rules ix ! r))) = Inr ix'" by simp
      with inr False Some show ?thesis by (rule start)
    qed
  qed
qed

lemma collectEmbeds_loop_Cons_Inr_cases:
  assumes "collectEmbeds_loop ix r resolver (e # es) = Inr ix'"
  obtains (skip) "findRuleByLabel ix e (label (rules ix ! r)) = None"
      "collectEmbeds_loop ix r resolver es = Inr ix'"
  | (merge) er ix1 erResolver where
      "findRuleByLabel ix e (label (rules ix ! r)) = Some er"
      "collectEmbeds ix er = Inr ix1"
      "resolverOf ix1 er = Some erResolver"
      "collectEmbeds_loop (mergeEmbedded ix1 r er (resolverName resolver = resolverName erResolver))
         r resolver es = Inr ix'"
  using assms
  by (auto simp: resolverOf_def split: option.splits sum.splits)

lemma recordExt_refl: "recordExt rec rec"
  by (simp add: recordExt_def)

lemma recordExt_trans: "recordExt rec rec1 \<Longrightarrow> recordExt rec1 rec2 \<Longrightarrow> recordExt rec rec2"
  by (auto simp: recordExt_def)

lemma closureExt_refl: "closureExt ix ix"
  by (simp add: closureExt_def recordExt_refl)

lemma closureExt_trans:
  assumes "closureExt ix ix1" and "closureExt ix1 ix2"
  shows "closureExt ix ix2"
proof -
  have "recordExt (rules ix ! i) (rules ix2 ! i)" if "i < length (rules ix)" for i
  proof -
    from assms that have "recordExt (rules ix ! i) (rules ix1 ! i)"
      and "recordExt (rules ix1 ! i) (rules ix2 ! i)"
      by (simp_all add: closureExt_def)
    then show ?thesis by (rule recordExt_trans)
  qed
  with assms show ?thesis by (simp add: closureExt_def)
qed

lemma closureStep_closureExt: "closureStep ix ix' \<Longrightarrow> closureExt ix ix'"
proof (induction rule: closureStep.induct)
  case (start r ix resolver)
  then show ?case
    by (simp add: closureExt_def recordExt_def startEmbeds_nth)
next
  case (merge r ix resolver e er erResolver)
  then show ?case
    by (simp add: closureExt_def recordExt_def mergeEmbedded_nth)
qed

lemma closureSteps_closureExt: "closureStep\<^sup>*\<^sup>* ix ix' \<Longrightarrow> closureExt ix ix'"
  by (induction rule: rtranclp_induct)
     (auto intro: closureExt_refl closureExt_trans closureStep_closureExt)

lemma closureExt_length: "closureExt ix ix' \<Longrightarrow> length (rules ix') = length (rules ix)"
  by (simp add: closureExt_def)

lemma closureExt_record:
  "closureExt ix ix' \<Longrightarrow> i < length (rules ix) \<Longrightarrow> recordExt (rules ix ! i) (rules ix' ! i)"
  by (simp add: closureExt_def)

lemma closureExt_resolverOf:
  "closureExt ix ix' \<Longrightarrow> i < length (rules ix) \<Longrightarrow> resolverOf ix' i = resolverOf ix i"
  by (simp add: closureExt_def recordExt_def resolverOf_def)

lemma closureExt_static:
  assumes "closureExt ix ix'" and "i < length (rules ix)"
  shows "rule (rules ix' ! i) = rule (rules ix ! i)" "label (rules ix' ! i) = label (rules ix ! i)"
    "file_rec (rules ix' ! i) = file_rec (rules ix ! i)" "lang (rules ix' ! i) = lang (rules ix ! i)"
  using closureExt_record [OF assms] by (simp_all add: recordExt_def)

lemma closureExt_findRuleByLabel:
  "closureExt ix ix' \<Longrightarrow> findRuleByLabel ix' e from = findRuleByLabel ix e from"
  by (simp add: closureExt_def findRuleByLabel_def)

lemma closureExt_marked:
  "closureExt ix ix' \<Longrightarrow> i < length (rules ix) \<Longrightarrow> didCollectEmbeds (rules ix ! i) \<Longrightarrow>
   didCollectEmbeds (rules ix' ! i)"
  using closureExt_record [of ix ix' i] by (simp add: recordExt_def)

text \<open>A run of \<open>collectEmbeds\<close> that returns is a sequence of such writes.\<close>

lemma collectEmbeds_closureSteps:
  "collectEmbeds ix r = Inr ix' \<Longrightarrow>
     closureStep\<^sup>*\<^sup>* ix ix' \<and> r < length (rules ix) \<and> didCollectEmbeds (rules ix' ! r)"
  "collectEmbeds_loop ix r resolver es = Inr ix' \<Longrightarrow>
     r < length (rules ix) \<Longrightarrow> didCollectEmbeds (rules ix ! r) \<Longrightarrow>
     resolverOf ix r = Some resolver \<Longrightarrow>
     set es \<subseteq> set (Embeds resolver (rule (rules ix ! r)) (label (rules ix ! r))) \<Longrightarrow>
     closureStep\<^sup>*\<^sup>* ix ix'"
proof (induction ix r and ix r resolver es arbitrary: ix' and ix'
    rule: collectEmbeds_collectEmbeds_loop.induct)
  case (1 ix r)
  from "1.prems" show ?case
  proof (cases rule: collectEmbeds_Inr_cases)
    case marked
    then show ?thesis by simp
  next
    case (start resolver)
    let ?ix2 = "startEmbeds ix r resolver"
    let ?es = "Embeds resolver (rule (rules ix ! r)) (label (rules ix ! r))"
    have step: "closureStep ix ?ix2"
      by (rule closureStep.start [OF start(1-3)])
    note ext = closureStep_closureExt [OF step]
    have m2: "didCollectEmbeds (rules ?ix2 ! r)"
      using start(1) by (simp add: startEmbeds_nth)
    have rs2: "resolverOf ?ix2 r = Some resolver"
      using closureExt_resolverOf [OF ext start(1)] start(3) by simp
    have es2: "set ?es \<subseteq> set (Embeds resolver (rule (rules ?ix2 ! r)) (label (rules ?ix2 ! r)))"
      using closureExt_static [OF ext start(1)] by simp
    have "closureStep\<^sup>*\<^sup>* ?ix2 ix'"
      using "1.IH" [OF _ _ _ refl refl refl, of resolver ix'] start m2 rs2 es2
      by (simp add: resolverOf_def startEmbeds_def updRecord_nth)
    with step have steps: "closureStep\<^sup>*\<^sup>* ix ix'" by simp
    from closureExt_marked [OF closureSteps_closureExt [OF \<open>closureStep\<^sup>*\<^sup>* ?ix2 ix'\<close>] _ m2] start(1)
    have "didCollectEmbeds (rules ix' ! r)" by simp
    with steps start(1) show ?thesis by simp
  qed
next
  case (2 ix r resolver)
  then show ?case by simp
next
  case (3 ix r resolver e es)
  from "3.prems"(1) show ?case
  proof (cases rule: collectEmbeds_loop_Cons_Inr_cases)
    case skip
    with "3.IH"(1) "3.prems" show ?thesis by simp
  next
    case (merge er ix1 erResolver)
    let ?b = "resolverName resolver = resolverName erResolver"
    let ?ix3 = "mergeEmbedded ix1 r er ?b"
    from "3.IH"(2) [OF merge(1,2)]
    have s1: "closureStep\<^sup>*\<^sup>* ix ix1" and er: "er < length (rules ix)"
      and mer: "didCollectEmbeds (rules ix1 ! er)" by simp_all
    note ext1 = closureSteps_closureExt [OF s1]
    note len1 = closureExt_length [OF ext1]
    have r1: "r < length (rules ix1)" using "3.prems"(2) len1 by simp
    have m1: "didCollectEmbeds (rules ix1 ! r)"
      by (rule closureExt_marked [OF ext1 "3.prems"(2,3)])
    have rs1: "resolverOf ix1 r = Some resolver"
      using closureExt_resolverOf [OF ext1 "3.prems"(2)] "3.prems"(4) by simp
    have st1: "rule (rules ix1 ! r) = rule (rules ix ! r)" "label (rules ix1 ! r) = label (rules ix ! r)"
      using closureExt_static [OF ext1 "3.prems"(2)] by simp_all
    have e1: "e \<in> set (Embeds resolver (rule (rules ix1 ! r)) (label (rules ix1 ! r)))"
      using "3.prems"(5) st1 by simp
    have f1: "findRuleByLabel ix1 e (label (rules ix1 ! r)) = Some er"
      using merge(1) closureExt_findRuleByLabel [OF ext1] st1 by simp
    have er1: "er < length (rules ix1)" using er len1 by simp
    have step: "closureStep ix1 ?ix3"
      by (rule closureStep.merge [OF r1 m1 rs1 e1 f1 er1 mer merge(3)])
    note ext3 = closureStep_closureExt [OF step]
    have r3: "r < length (rules ?ix3)" using r1 by simp
    have m3: "didCollectEmbeds (rules ?ix3 ! r)"
      by (rule closureExt_marked [OF ext3 r1 m1])
    have rs3: "resolverOf ?ix3 r = Some resolver"
      using closureExt_resolverOf [OF ext3 r1] rs1 by simp
    have es3: "set es \<subseteq> set (Embeds resolver (rule (rules ?ix3 ! r)) (label (rules ?ix3 ! r)))"
      using "3.prems"(5) st1 closureExt_static [OF ext3 r1] by simp
    have "closureStep\<^sup>*\<^sup>* ?ix3 ix'"
      using "3.IH"(3) [OF merge(1,2) _ merge(4) r3 m3 rs3 es3] merge(3)
      by (simp add: resolverOf_def)
    with s1 step show ?thesis by simp
  qed
qed

subsection \<open>No nil resolver on a well-formed index\<close>

lemma closureExt_wf_index:
  assumes "closureExt ix ix'" and "wf_index ix"
  shows "wf_index ix'"
proof -
  note len = closureExt_length [OF assms(1)]
  have lm: "labelMap ix' = labelMap ix" and mr: "mrslv ix' = mrslv ix"
    using assms(1) by (simp_all add: closureExt_def)
  have a: "i < length (rules ix') \<and> label (rules ix' ! i) = l" if "labelMap ix' l = Some i" for l i
  proof -
    from that lm assms(2) have "i < length (rules ix)" "label (rules ix ! i) = l"
      by (simp_all add: wf_index_def)
    with closureExt_static(2) [OF assms(1), of i] len show ?thesis by simp
  qed
  have b: "labelMap ix' (label (rules ix' ! i)) = Some i" if "i < length (rules ix')" for i
  proof -
    from that len have i: "i < length (rules ix)" by simp
    with assms(2) have "labelMap ix (label (rules ix ! i)) = Some i" by (simp add: wf_index_def)
    with closureExt_static(2) [OF assms(1) i] lm show ?thesis by simp
  qed
  have c: "\<exists>p. mrslv ix' (rule (rules ix' ! i)) (filePkg (file_rec (rules ix' ! i))) = Some p \<and>
         lang (rules ix' ! i) = resolverName p" if "i < length (rules ix')" for i
  proof -
    from that len have i: "i < length (rules ix)" by simp
    with assms(2) obtain p where
      "mrslv ix (rule (rules ix ! i)) (filePkg (file_rec (rules ix ! i))) = Some p"
      "lang (rules ix ! i) = resolverName p"
      unfolding wf_index_def by blast
    with closureExt_static [OF assms(1) i] mr show ?thesis by simp
  qed
  show ?thesis
    unfolding wf_index_def using a b c by blast
qed

lemma wf_index_resolverOf:
  "wf_index ix \<Longrightarrow> i < length (rules ix) \<Longrightarrow>
   \<exists>p. resolverOf ix i = Some p \<and> lang (rules ix ! i) = resolverName p"
  by (simp add: wf_index_def resolverOf_def)

lemma wf_index_findRuleByLabel:
  "wf_index ix \<Longrightarrow> findRuleByLabel ix e from = Some er \<Longrightarrow> er < length (rules ix)"
  by (simp add: wf_index_def findRuleByLabel_def)

text \<open>On a well-formed index the closure computation meets no nil resolver.\<close>

lemma collectEmbeds_returns:
  "wf_index ix \<Longrightarrow> r < length (rules ix) \<Longrightarrow> \<exists>ix'. collectEmbeds ix r = Inr ix'"
  "wf_index ix \<Longrightarrow> r < length (rules ix) \<Longrightarrow> didCollectEmbeds (rules ix ! r) \<Longrightarrow>
   resolverOf ix r = Some resolver \<Longrightarrow>
   set es \<subseteq> set (Embeds resolver (rule (rules ix ! r)) (label (rules ix ! r))) \<Longrightarrow>
   \<exists>ix'. collectEmbeds_loop ix r resolver es = Inr ix'"
proof (induction ix r and ix r resolver es rule: collectEmbeds_collectEmbeds_loop.induct)
  case (1 ix r)
  show ?case
  proof (cases "didCollectEmbeds (rules ix ! r)")
    case True
    with "1.prems" show ?thesis by (simp add: collectEmbeds_marked)
  next
    case False
    from wf_index_resolverOf [OF "1.prems"] obtain resolver where
      rs: "resolverOf ix r = Some resolver" by blast
    let ?ix2 = "startEmbeds ix r resolver"
    let ?es = "Embeds resolver (rule (rules ix ! r)) (label (rules ix ! r))"
    have step: "closureStep ix ?ix2"
      by (rule closureStep.start [OF "1.prems"(2) False rs])
    note ext = closureStep_closureExt [OF step]
    have wf2: "wf_index ?ix2" by (rule closureExt_wf_index [OF ext "1.prems"(1)])
    have m2: "didCollectEmbeds (rules ?ix2 ! r)"
      using "1.prems"(2) by (simp add: startEmbeds_nth)
    have rs2: "resolverOf ?ix2 r = Some resolver"
      using closureExt_resolverOf [OF ext "1.prems"(2)] rs by simp
    have es2: "set ?es \<subseteq> set (Embeds resolver (rule (rules ?ix2 ! r)) (label (rules ?ix2 ! r)))"
      using closureExt_static [OF ext "1.prems"(2)] by simp
    have "\<exists>ix'. collectEmbeds_loop ?ix2 r resolver ?es = Inr ix'"
      using "1.IH" [OF _ _ _ refl refl refl, of resolver] "1.prems"(2) False rs wf2 m2 rs2 es2
      by (simp add: resolverOf_def startEmbeds_def updRecord_nth)
    with collectEmbeds_start [OF "1.prems"(2) False rs] show ?thesis by simp
  qed
next
  case (2 ix r resolver)
  then show ?case by simp
next
  case (3 ix r resolver e es)
  show ?case
  proof (cases "findRuleByLabel ix e (label (rules ix ! r))")
    case None
    with "3.IH"(1) "3.prems" show ?thesis by simp
  next
    case (Some er)
    from wf_index_findRuleByLabel [OF "3.prems"(1) Some] have er: "er < length (rules ix)" .
    from "3.IH"(2) [OF Some "3.prems"(1) er] obtain ix1 where
      c: "collectEmbeds ix er = Inr ix1" by blast
    from collectEmbeds_closureSteps(1) [OF c]
    have s1: "closureStep\<^sup>*\<^sup>* ix ix1" and mer: "didCollectEmbeds (rules ix1 ! er)" by simp_all
    note ext1 = closureSteps_closureExt [OF s1]
    note len1 = closureExt_length [OF ext1]
    have wf1: "wf_index ix1" by (rule closureExt_wf_index [OF ext1 "3.prems"(1)])
    have er1: "er < length (rules ix1)" using er len1 by simp
    from wf_index_resolverOf [OF wf1 er1] obtain erResolver where
      ers: "resolverOf ix1 er = Some erResolver" by blast
    have r1: "r < length (rules ix1)" using "3.prems"(2) len1 by simp
    have m1: "didCollectEmbeds (rules ix1 ! r)"
      by (rule closureExt_marked [OF ext1 "3.prems"(2,3)])
    have rs1: "resolverOf ix1 r = Some resolver"
      using closureExt_resolverOf [OF ext1 "3.prems"(2)] "3.prems"(4) by simp
    have st1: "rule (rules ix1 ! r) = rule (rules ix ! r)" "label (rules ix1 ! r) = label (rules ix ! r)"
      using closureExt_static [OF ext1 "3.prems"(2)] by simp_all
    have e1: "e \<in> set (Embeds resolver (rule (rules ix1 ! r)) (label (rules ix1 ! r)))"
      using "3.prems"(5) st1 by simp
    have f1: "findRuleByLabel ix1 e (label (rules ix1 ! r)) = Some er"
      using Some closureExt_findRuleByLabel [OF ext1] st1 by simp
    let ?b = "resolverName resolver = resolverName erResolver"
    let ?ix3 = "mergeEmbedded ix1 r er ?b"
    have step: "closureStep ix1 ?ix3"
      by (rule closureStep.merge [OF r1 m1 rs1 e1 f1 er1 mer ers])
    note ext3 = closureStep_closureExt [OF step]
    have wf3: "wf_index ?ix3" by (rule closureExt_wf_index [OF ext3 wf1])
    have r3: "r < length (rules ?ix3)" using r1 by simp
    have m3: "didCollectEmbeds (rules ?ix3 ! r)"
      by (rule closureExt_marked [OF ext3 r1 m1])
    have rs3: "resolverOf ?ix3 r = Some resolver"
      using closureExt_resolverOf [OF ext3 r1] rs1 by simp
    have es3: "set es \<subseteq> set (Embeds resolver (rule (rules ?ix3 ! r)) (label (rules ?ix3 ! r)))"
      using "3.prems"(5) st1 closureExt_static [OF ext3 r1] by simp
    have "\<exists>ix'. collectEmbeds_loop ?ix3 r resolver es = Inr ix'"
      using "3.IH"(3) [OF Some c _ wf3 r3 m3 rs3 es3] ers
      by (simp add: resolverOf_def)
    with Some c ers show ?thesis by (simp add: resolverOf_def)
  qed
qed

lemma Finish_loop_returns:
  "wf_index ix \<Longrightarrow> \<forall>r \<in> set rs. r < length (rules ix) \<Longrightarrow> \<exists>ix'. Finish_loop ix rs = Inr ix'"
proof (induction rs arbitrary: ix)
  case Nil
  then show ?case by simp
next
  case (Cons r rs)
  from Cons.prems have r: "r < length (rules ix)" by simp
  from collectEmbeds_returns(1) [OF Cons.prems(1) r] obtain ix1 where
    c: "collectEmbeds ix r = Inr ix1" by blast
  note ext = closureSteps_closureExt [OF conjunct1 [OF collectEmbeds_closureSteps(1) [OF c]]]
  have "wf_index ix1" by (rule closureExt_wf_index [OF ext Cons.prems(1)])
  moreover have "\<forall>r \<in> set rs. r < length (rules ix1)"
    using Cons.prems(2) closureExt_length [OF ext] by simp
  ultimately obtain ix' where "Finish_loop ix1 rs = Inr ix'"
    using Cons.IH by blast
  with c show ?case by simp
qed

lemma Finish_returns: "wf_index ix \<Longrightarrow> \<exists>ix'. Finish ix = Inr ix'"
  using Finish_loop_returns [of ix "[0..<length (rules ix)]"]
  by (auto simp: Finish_def)

lemma unmarked_zero_iff:
  "unmarked ix = 0 \<longleftrightarrow> (\<forall>i < length (rules ix). didCollectEmbeds (rules ix ! i))"
  unfolding unmarked_def
  by (simp add: filter_empty_conv all_set_conv_all_nth)

lemma Finish_loop_closureSteps:
  "Finish_loop ix rs = Inr ix' \<Longrightarrow>
   closureStep\<^sup>*\<^sup>* ix ix' \<and> (\<forall>r \<in> set rs. r < length (rules ix) \<and> didCollectEmbeds (rules ix' ! r))"
proof (induction rs arbitrary: ix)
  case Nil
  then show ?case by simp
next
  case (Cons r rs)
  from Cons.prems obtain ix1 where
    c: "collectEmbeds ix r = Inr ix1" and l: "Finish_loop ix1 rs = Inr ix'"
    by (auto split: sum.splits)
  from collectEmbeds_closureSteps(1) [OF c]
  have s1: "closureStep\<^sup>*\<^sup>* ix ix1" and r: "r < length (rules ix)"
    and m: "didCollectEmbeds (rules ix1 ! r)" by simp_all
  from Cons.IH [OF l]
  have s2: "closureStep\<^sup>*\<^sup>* ix1 ix'"
    and rest: "\<forall>r \<in> set rs. r < length (rules ix1) \<and> didCollectEmbeds (rules ix' ! r)" by simp_all
  note len1 = closureExt_length [OF closureSteps_closureExt [OF s1]]
  have "didCollectEmbeds (rules ix' ! r)"
    using closureExt_marked [OF closureSteps_closureExt [OF s2] _ m] r len1 by simp
  with s1 s2 r rest len1 show ?case by auto
qed

lemma rules_buildImportIndex [simp]: "rules (buildImportIndex ix) = rules ix"
  by (simp add: buildImportIndex_def)

lemma Finish_Inr_cases:
  assumes "Finish ix = Inr ix'"
  obtains ix1 where "Finish_loop ix [0..<length (rules ix)] = Inr ix1"
    "ix' = (buildImportIndex ix1)\<lparr>didFinish := True\<rparr>"
  using assms by (auto simp: Finish_def split: sum.splits)

lemma Finish_all_marked:
  assumes "Finish ix = Inr ix'"
  shows "unmarked ix' = 0"
  using assms
proof (cases rule: Finish_Inr_cases)
  case (1 ix1)
  from Finish_loop_closureSteps [OF 1(1)]
  have s: "closureStep\<^sup>*\<^sup>* ix ix1"
    and m: "\<forall>r \<in> set [0..<length (rules ix)]. didCollectEmbeds (rules ix1 ! r)" by simp_all
  from closureExt_length [OF closureSteps_closureExt [OF s]] m 1(2)
  show ?thesis by (simp add: unmarked_zero_iff)
qed

subsection \<open>Where the closure data comes from\<close>












subsection \<open>Completeness of the closure\<close>











subsection \<open>The import index and the query\<close>








subsection \<open>The finished index\<close>










subsection \<open>Callers and examples\<close>

lemma ruleImports_filtered:
  "mrslv ix r (filePkg f) = Some rslv \<Longrightarrow> Langs c \<noteq> [] \<Longrightarrow>
   resolverName rslv \<notin> set (Langs c) \<Longrightarrow> ruleImports ix c r f = (resolverName rslv, None)"
  by (simp add: ruleImports_def passesLanguageFilter_iff)

lemma crossResolve_loop_eq:
  "crossResolve_loop crossResolve c ix imp lng crs (results, called) =
     (results @ concat (map (\<lambda>cr. crossResolve cr c ix imp lng) crs), called @ crs)"
  by (induction crs arbitrary: results called) simp_all

lemma Finish_didFinish: "Finish ix = Inr ix' \<Longrightarrow> didFinish ix'"
  by (auto simp: Finish_def split: sum.splits)

lemma Finish_finishedIndex: "\<not> isl (Finish ix) \<Longrightarrow> Finish ix = Inr (finishedIndex ix)"
  by (cases "Finish ix") (simp_all add: finishedIndex_def)

lemma AddRules_registeredIndex:
  "\<not> isl (AddRules calls ix) \<Longrightarrow> AddRules calls ix = Inr (registeredIndex calls ix, snd (projr (AddRules calls ix)))"
  by (cases "AddRules calls ix") (auto simp add: registeredIndex_def)



lemma sum_collapse_Inr: "\<not> isl x \<Longrightarrow> x = Inr (projr x)"
  by (cases x) simp_all




lemma exampleCross_direct:
  "FindRulesByImport exampleCrossIndex \<lparr>Lang = ''go'', Imp = ''a''\<rparr> ''go''
     = [\<lparr>resultLabel = exampleLabel ''a'', resultEmbeds = []\<rparr>]"
  by code_simp

lemma exampleCross_none:
  "FindRulesByImport exampleCrossIndex \<lparr>Lang = ''go'', Imp = ''b''\<rparr> ''go'' = []"
  by code_simp

lemma exampleCross_resolvers: "crossResolvers exampleCrossIndex = [''x'', ''y'']"
  by code_simp

section \<open>The claims\<close>

subsection \<open>C1\<close>

text \<open>
  C1, as stated, fails: a go rule offered to an empty index under the allow-list
  \<open>[proto]\<close> has a provider whose name the non-empty list does not contain. The call
  returns, \<open>Finish\<close> returns, and the label map has no record under the label of the rule.
\<close>

theorem filtered_rule_recorded_counterexample:
  "map_option resolverName
     (mrslv (NewRuleIndex (exampleMrslv []) ([] :: unit option list))
        \<lparr>ruleKind = ''go_library'', ruleName = ''a''\<rparr> (filePkg exampleFile))
     = Some ''go'' \<and>
   Langs \<lparr>RepoName = [], Langs = [''proto'']\<rparr> = [''proto''] \<and>
   \<not> isl (AddRule \<lparr>RepoName = [], Langs = [''proto'']\<rparr>
        \<lparr>ruleKind = ''go_library'', ruleName = ''a''\<rparr> exampleFile
        (NewRuleIndex (exampleMrslv []) ([] :: unit option list))) \<and>
   \<not> isl (Finish (registeredIndex
        [(\<lparr>RepoName = [], Langs = [''proto'']\<rparr>,
          \<lparr>ruleKind = ''go_library'', ruleName = ''a''\<rparr>, exampleFile)]
        (NewRuleIndex (exampleMrslv []) ([] :: unit option list)))) \<and>
   labelMap (finishedIndex (registeredIndex
        [(\<lparr>RepoName = [], Langs = [''proto'']\<rparr>,
          \<lparr>ruleKind = ''go_library'', ruleName = ''a''\<rparr>, exampleFile)]
        (NewRuleIndex (exampleMrslv []) ([] :: unit option list))))
     (New [] (filePkg exampleFile) ''a'') = None \<and>
   \<not> recordedAfterFinish \<lparr>RepoName = [], Langs = [''proto'']\<rparr>
        \<lparr>ruleKind = ''go_library'', ruleName = ''a''\<rparr> exampleFile
        (NewRuleIndex (exampleMrslv []) ([] :: unit option list))"
  by code_simp

text \<open>
  C1, amended: when the provider lookup returns a provider whose name a non-empty
  allow-list does not contain, \<open>AddRule\<close> (called before \<open>Finish\<close>) drops the rule: it
  returns the index unchanged and logs nothing.
\<close>

theorem AddRule_filtered_language_dropped:
  "\<not> didFinish ix \<Longrightarrow> mrslv ix r (filePkg f) = Some rslv \<Longrightarrow> Langs c \<noteq> [] \<Longrightarrow>
   resolverName rslv \<notin> set (Langs c) \<Longrightarrow> AddRule c r f ix = Inr (ix, [])"
  by (simp add: AddRule_def ruleImports_filtered)

theorem AddRule_filtered_language_dropped_witness:
  "AddRule \<lparr>RepoName = [], Langs = [''proto'']\<rparr> \<lparr>ruleKind = ''go_library'', ruleName = ''a''\<rparr>
     exampleFile (NewRuleIndex (exampleMrslv []) ([] :: unit option list))
   = Inr (NewRuleIndex (exampleMrslv []) [], [])"
proof -
  have "\<not> didFinish (NewRuleIndex (exampleMrslv []) ([] :: unit option list))"
    by (simp add: NewRuleIndex_def)
  moreover have "mrslv (NewRuleIndex (exampleMrslv []) ([] :: unit option list))
       \<lparr>ruleKind = ''go_library'', ruleName = ''a''\<rparr> (filePkg exampleFile)
     = Some (exampleResolver ''go'' [])"
    by (simp add: NewRuleIndex_def exampleMrslv_def)
  moreover have "Langs \<lparr>RepoName = [], Langs = [''proto'']\<rparr> \<noteq> []"
    by simp
  moreover have "resolverName (exampleResolver ''go'' [])
       \<notin> set (Langs \<lparr>RepoName = [], Langs = [''proto'']\<rparr>)"
    by (simp add: exampleResolver_def)
  ultimately show ?thesis
    by (rule AddRule_filtered_language_dropped)
qed

subsection \<open>C2\<close>




subsection \<open>C3\<close>




subsection \<open>C4\<close>




subsection \<open>C5\<close>

text \<open>
  C5: when \<open>FindRulesByImport\<close> returns the empty list, \<open>FindRulesByImportWithConfig\<close>
  returns the concatenation, in registration order, of what each registered cross
  resolver returns for the import and language, having called each of them once in that
  order; when \<open>FindRulesByImport\<close> returns one or more results, it returns exactly those
  and calls no cross resolver.
\<close>

theorem FindRulesByImportWithConfig_fallback:
  "(FindRulesByImport ix imp lng = [] \<longrightarrow>
      FindRulesByImportWithConfig crossResolve c ix imp lng =
        (concat (map (\<lambda>cr. crossResolve cr c ix imp lng) (crossResolvers ix)), crossResolvers ix)) \<and>
   (FindRulesByImport ix imp lng \<noteq> [] \<longrightarrow>
      FindRulesByImportWithConfig crossResolve c ix imp lng = (FindRulesByImport ix imp lng, []))"
  by (simp add: FindRulesByImportWithConfig_def Let_def crossResolve_loop_eq)

theorem FindRulesByImportWithConfig_fallback_witness:
  "FindRulesByImport exampleCrossIndex \<lparr>Lang = ''go'', Imp = ''b''\<rparr> ''go'' = [] \<and>
   FindRulesByImportWithConfig exampleCrossResolve exampleConfig exampleCrossIndex
       \<lparr>Lang = ''go'', Imp = ''b''\<rparr> ''go''
     = ([\<lparr>resultLabel = New ''x'' ''go'' ''b'', resultEmbeds = []\<rparr>,
         \<lparr>resultLabel = New ''y'' ''go'' ''b'', resultEmbeds = []\<rparr>], [''x'', ''y'']) \<and>
   FindRulesByImport exampleCrossIndex \<lparr>Lang = ''go'', Imp = ''a''\<rparr> ''go'' \<noteq> [] \<and>
   FindRulesByImportWithConfig exampleCrossResolve exampleConfig exampleCrossIndex
       \<lparr>Lang = ''go'', Imp = ''a''\<rparr> ''go''
     = ([\<lparr>resultLabel = exampleLabel ''a'', resultEmbeds = []\<rparr>], [])"
  using FindRulesByImportWithConfig_fallback
      [of exampleCrossIndex "\<lparr>Lang = ''go'', Imp = ''b''\<rparr>" "''go''" exampleCrossResolve exampleConfig]
    FindRulesByImportWithConfig_fallback
      [of exampleCrossIndex "\<lparr>Lang = ''go'', Imp = ''a''\<rparr>" "''go''" exampleCrossResolve exampleConfig]
  by (simp add: exampleCross_direct exampleCross_none exampleCross_resolvers exampleCrossResolve_def)

subsection \<open>C6\<close>



subsection \<open>C7\<close>

text \<open>
  C7: the recursion of \<open>collectEmbeds\<close> and of its loop is well-founded on every index and
  every record, whatever the embed relation (cycles included). A call on a record whose
  flag is set returns the index as it is; any other call that returns has set the flag
  of its record and left strictly fewer records unstarted, so the body of
  \<open>collectEmbeds\<close> runs at most once for each record. When \<open>Finish\<close> returns, every record's
  flag is set; and on an index built by \<open>AddRule\<close> calls it does return.
\<close>

theorem collectEmbeds_terminates:
  "collectEmbeds_collectEmbeds_loop_dom (Inl (ix, r)) \<and>
   collectEmbeds_collectEmbeds_loop_dom (Inr (ix, r, resolver, es)) \<and>
   (\<forall>ix'. collectEmbeds ix r = Inr ix' \<longrightarrow>
      didCollectEmbeds (rules ix' ! r) \<and>
      (if didCollectEmbeds (rules ix ! r) then ix' = ix else unmarked ix' < unmarked ix)) \<and>
   (\<forall>ix'. Finish ix = Inr ix' \<longrightarrow> unmarked ix' = 0) \<and>
   (\<forall>calls m exts lg. AddRules calls (NewRuleIndex m exts) = Inr (ix, lg) \<longrightarrow>
      (\<exists>ix'. Finish ix = Inr ix'))"
proof (intro conjI allI impI)
  show "collectEmbeds_collectEmbeds_loop_dom (Inl (ix, r))"
    using collectEmbeds_dom_total by blast
  show "collectEmbeds_collectEmbeds_loop_dom (Inr (ix, r, resolver, es))"
    using collectEmbeds_dom_total by blast
next
  fix ix' assume c: "collectEmbeds ix r = Inr ix'"
  from collectEmbeds_closureSteps(1) [OF c] show "didCollectEmbeds (rules ix' ! r)" by simp
  from c show "if didCollectEmbeds (rules ix ! r) then ix' = ix else unmarked ix' < unmarked ix"
  proof (cases rule: collectEmbeds_Inr_cases)
    case marked
    then show ?thesis by simp
  next
    case (start resolver)
    have "unmarked ix' \<le> unmarked (startEmbeds ix r resolver)"
      using collectEmbeds_unmarked_partial(2) [OF _ start(4)] collectEmbeds_dom_total by blast
    also have "unmarked (startEmbeds ix r resolver) < unmarked ix"
      using unmarked_mark [OF start(1,2)] by (simp add: startEmbeds_def unmarked_updRecord)
    finally show ?thesis using start(2) by simp
  qed
next
  fix ix' assume "Finish ix = Inr ix'"
  then show "unmarked ix' = 0" by (rule Finish_all_marked)
next
  fix calls m exts lg assume "AddRules calls (NewRuleIndex m exts) = Inr (ix, lg)"
  from AddRules_invariants [OF this wf_index_New fresh_index_New]
  show "\<exists>ix'. Finish ix = Inr ix'" by (simp add: Finish_returns)
qed

theorem collectEmbeds_terminates_witness:
  "unmarked exampleCycle = 2 \<and>
   \<not> isl (collectEmbeds exampleCycle 0) \<and>
   unmarked (projr (collectEmbeds exampleCycle 0)) < unmarked exampleCycle \<and>
   \<not> isl (Finish exampleCycle) \<and>
   unmarked (projr (Finish exampleCycle)) = 0"
proof -
  have u: "unmarked exampleCycle = 2" by code_simp
  have m: "\<not> didCollectEmbeds (rules exampleCycle ! 0)" by code_simp
  have c: "\<not> isl (collectEmbeds exampleCycle 0)" by code_simp
  have f: "\<not> isl (Finish exampleCycle)" by code_simp
  from collectEmbeds_terminates [of exampleCycle 0 "exampleResolver ''go'' []" "[]"]
    sum_collapse_Inr [OF c] sum_collapse_Inr [OF f] m
  have "unmarked (projr (collectEmbeds exampleCycle 0)) < unmarked exampleCycle"
    and "unmarked (projr (Finish exampleCycle)) = 0"
    by metis+
  with u c f show ?thesis by simp
qed

subsection \<open>C8\<close>

text \<open>
  C8, as stated, fails: the index holds the go library \<open>a\<close>; a call that presents the go
  binary \<open>a\<close> has the same label, but its provider returns nil imports, and the call
  returns before the duplicate check and logs nothing.
\<close>

theorem duplicate_reported_counterexample:
  "labelMap (exampleIndex [] [(''go_library'', ''a'')])
      (New (RepoName exampleConfig) (filePkg exampleFile) (ruleName \<lparr>ruleKind = ''go_binary'', ruleName = ''a''\<rparr>))
     = Some 0 \<and>
   map_sum id snd (AddRule exampleConfig \<lparr>ruleKind = ''go_binary'', ruleName = ''a''\<rparr> exampleFile
       (exampleIndex [] [(''go_library'', ''a'')])) = Inr [] \<and>
   \<not> duplicateReported exampleConfig \<lparr>ruleKind = ''go_binary'', ruleName = ''a''\<rparr> exampleFile
       (exampleIndex [] [(''go_library'', ''a'')])"
  by code_simp

text \<open>
  C8, amended: on an index built by any sequence of \<open>AddRule\<close> calls (before \<open>Finish\<close>), a
  call that presents an indexable rule (its provider is found, passes the language
  filter and returns non-nil imports) whose label is already in the index logs the
  report, does not panic and returns the index as it was; and the labels of the records
  of such an index are pairwise distinct.
\<close>

theorem AddRule_duplicate_label:
  assumes "AddRules calls (NewRuleIndex m exts) = Inr (ix, lg)"
    and "mrslv ix r (filePkg f) = Some rslv"
    and "passesLanguageFilter (Langs c) (resolverName rslv)"
    and "Imports rslv c r f = Some imps"
    and "labelMap ix (New (RepoName c) (filePkg f) (ruleName r)) = Some other"
  shows "AddRule c r f ix = Inr (ix, [MultipleRulesFound (New (RepoName c) (filePkg f) (ruleName r))])
       \<and> distinct (map label (rules ix))"
proof -
  from AddRules_invariants [OF assms(1) wf_index_New fresh_index_New]
  have wf: "wf_index ix" and fr: "fresh_index ix" by simp_all
  from fr have "\<not> didFinish ix" by (simp add: fresh_index_def)
  with assms(2-5) have "AddRule c r f ix = Inr (ix, [MultipleRulesFound (New (RepoName c) (filePkg f) (ruleName r))])"
    by (simp add: AddRule_def ruleImports_def Let_def)
  with wf_index_distinct [OF wf] show ?thesis by simp
qed

theorem AddRule_duplicate_label_witness:
  "AddRule exampleConfig \<lparr>ruleKind = ''go_library'', ruleName = ''a''\<rparr> exampleFile
     (exampleIndex [] [(''go_library'', ''a'')])
   = Inr (exampleIndex [] [(''go_library'', ''a'')], [MultipleRulesFound (exampleLabel ''a'')])
   \<and> distinct (map label (rules (exampleIndex [] [(''go_library'', ''a'')])))"
proof -
  have "\<not> isl (AddRules [exampleCall ''go_library'' ''a''] (NewRuleIndex (exampleMrslv []) ([] :: unit option list)))"
    by code_simp
  from AddRules_registeredIndex [OF this]
  have 1: "AddRules [exampleCall ''go_library'' ''a''] (NewRuleIndex (exampleMrslv []) ([] :: unit option list))
     = Inr (exampleIndex [] [(''go_library'', ''a'')],
            snd (projr (AddRules [exampleCall ''go_library'' ''a''] (NewRuleIndex (exampleMrslv []) ([] :: unit option list)))))"
    by (simp add: exampleIndex_def)
  have 2: "mrslv (exampleIndex [] [(''go_library'', ''a'')]) \<lparr>ruleKind = ''go_library'', ruleName = ''a''\<rparr>
      (filePkg exampleFile) = Some (exampleResolver ''go'' [])"
    by (simp add: exampleIndex_def registeredIndex_def exampleCall_def AddRule_def ruleImports_def
        NewRuleIndex_def exampleMrslv_def exampleResolver_def passesLanguageFilter_def exampleConfig_def Let_def)
  have 3: "passesLanguageFilter (Langs exampleConfig) (resolverName (exampleResolver ''go'' []))"
    by (simp add: passesLanguageFilter_def exampleConfig_def)
  have 4: "Imports (exampleResolver ''go'' []) exampleConfig \<lparr>ruleKind = ''go_library'', ruleName = ''a''\<rparr> exampleFile
     = Some [\<lparr>Lang = ''go'', Imp = ''a''\<rparr>]"
    by (simp add: exampleResolver_def)
  have 5: "labelMap (exampleIndex [] [(''go_library'', ''a'')])
      (New (RepoName exampleConfig) (filePkg exampleFile) (ruleName \<lparr>ruleKind = ''go_library'', ruleName = ''a''\<rparr>))
     = Some 0"
    by code_simp
  from AddRule_duplicate_label [OF 1 2 3 4 5] show ?thesis
    by (simp add: exampleLabel_def exampleConfig_def exampleFile_def)
qed

subsection \<open>C9\<close>

text \<open>
  C9: once \<open>Finish\<close> has returned, every call of \<open>AddRule\<close> on the index ends in the panic
  of \<^verbatim>\<open>log.Panicf\<close>. The panic is the first statement of \<open>AddRule\<close>: no write to the
  index precedes it, and the call returns no index.
\<close>

theorem AddRule_after_Finish_panics:
  "Finish ix = Inr ix' \<Longrightarrow> AddRule c r f ix' = Inl AddRuleAfterFinish"
  by (simp add: AddRule_def Finish_didFinish)

theorem AddRule_after_Finish_panics_witness:
  "AddRule exampleConfig \<lparr>ruleKind = ''go_library'', ruleName = ''b''\<rparr> exampleFile
     (finishedIndex (exampleIndex [] [(''go_library'', ''a'')])) = Inl AddRuleAfterFinish"
proof -
  have "\<not> isl (Finish (exampleIndex [] [(''go_library'', ''a'')]))"
    by code_simp
  then have "Finish (exampleIndex [] [(''go_library'', ''a'')])
      = Inr (finishedIndex (exampleIndex [] [(''go_library'', ''a'')]))"
    by (rule Finish_finishedIndex)
  then show ?thesis
    by (rule AddRule_after_Finish_panics)
qed

subsection \<open>C10\<close>

text \<open>
  C10: every record of an index built by \<open>AddRule\<close> calls has a provider (the lookup
  function is a function of the rule and the package path, and the record keeps both), and
  \<open>Finish\<close> returns on such an index: none of the provider lookups of \<open>collectEmbeds\<close>
  yields nil.
\<close>

theorem Finish_meets_no_nil_resolver:
  "AddRules calls (NewRuleIndex m exts) = Inr (ix, lg) \<Longrightarrow>
   (\<forall>i < length (rules ix). resolverOf ix i \<noteq> None) \<and> (\<exists>ix'. Finish ix = Inr ix')"
proof -
  assume "AddRules calls (NewRuleIndex m exts) = Inr (ix, lg)"
  from AddRules_invariants [OF this wf_index_New fresh_index_New]
  have wf: "wf_index ix" by simp
  from wf_index_resolverOf [OF wf] Finish_returns [OF wf]
  show ?thesis by fastforce
qed

theorem Finish_meets_no_nil_resolver_witness:
  "resolverOf exampleCycle 0 \<noteq> None \<and> resolverOf exampleCycle 1 \<noteq> None \<and> length (rules exampleCycle) = 2 \<and>
   (\<exists>ix'. Finish exampleCycle = Inr ix')"
proof -
  have "\<not> isl (AddRules (map (\<lambda>(kind, name). exampleCall kind name) [(''go_library'', ''a''), (''go_library'', ''b'')])
     (NewRuleIndex (exampleMrslv [(''a'', [exampleLabel ''b'']), (''b'', [exampleLabel ''a''])]) ([] :: unit option list)))"
    by code_simp
  from AddRules_registeredIndex [OF this]
  have "AddRules (map (\<lambda>(kind, name). exampleCall kind name) [(''go_library'', ''a''), (''go_library'', ''b'')])
     (NewRuleIndex (exampleMrslv [(''a'', [exampleLabel ''b'']), (''b'', [exampleLabel ''a''])]) ([] :: unit option list))
    = Inr (exampleCycle, snd (projr (AddRules (map (\<lambda>(kind, name). exampleCall kind name) [(''go_library'', ''a''), (''go_library'', ''b'')])
     (NewRuleIndex (exampleMrslv [(''a'', [exampleLabel ''b'']), (''b'', [exampleLabel ''a''])]) ([] :: unit option list)))))"
    by (simp add: exampleCycle_def exampleIndex_def)
  from Finish_meets_no_nil_resolver [OF this]
  have a: "\<forall>i < length (rules exampleCycle). resolverOf exampleCycle i \<noteq> None"
    and b: "\<exists>ix'. Finish exampleCycle = Inr ix'" by simp_all
  have l: "length (rules exampleCycle) = 2" by code_simp
  from a l have "resolverOf exampleCycle 0 \<noteq> None" "resolverOf exampleCycle 1 \<noteq> None" by simp_all
  with b l show ?thesis by simp
qed

end
